theory Spec2Isabelle
  imports Main "HOL-Library.Word"
begin

section \<open>Strings of the host language\<close>

text \<open>
  The rule \<^verbatim>\<open>table-column-integrity.js\<close> works on JavaScript strings, which are
  sequences of 16-bit code units.  The patterns of the rule carry no flag, so they and
  \<^verbatim>\<open>trim\<close>, \<^verbatim>\<open>split\<close> and \<^verbatim>\<open>includes\<close> all read a string code unit by code unit.
\<close>

type_synonym cu = "16 word"
type_synonym jsstring = "cu list"

text \<open>An ASCII literal of the source, as a string of code units.\<close>

definition js :: "string \<Rightarrow> jsstring" where
  "js s = map (\<lambda>c. of_nat (of_char c)) s"

definition pipe :: cu where
  "pipe = 0x7C"

text \<open>
  ECMAScript's \<^verbatim>\<open>LineTerminator\<close> and \<^verbatim>\<open>WhiteSpace\<close> productions.  Their union is
  what \<^verbatim>\<open>\s\<close> matches and what \<^verbatim>\<open>trim\<close> strips; \<^verbatim>\<open>.\<close> matches everything but
  a line terminator.
\<close>

definition isLineTerminator :: "cu \<Rightarrow> bool" where
  "isLineTerminator c \<longleftrightarrow> c = 0x000A \<or> c = 0x000D \<or> c = 0x2028 \<or> c = 0x2029"

definition isWhiteSpace :: "cu \<Rightarrow> bool" where
  "isWhiteSpace c \<longleftrightarrow>
     c = 0x0009 \<or> c = 0x000B \<or> c = 0x000C \<or> c = 0x0020 \<or> c = 0x00A0 \<or> c = 0xFEFF \<or>
     c = 0x1680 \<or> (0x2000 \<le> c \<and> c \<le> 0x200A) \<or> c = 0x202F \<or> c = 0x205F \<or> c = 0x3000"

definition isSpace :: "cu \<Rightarrow> bool" where
  "isSpace c \<longleftrightarrow> isWhiteSpace c \<or> isLineTerminator c"

text \<open>\<^verbatim>\<open>String.prototype.trim\<close>: strip the leading and the trailing run of space.\<close>

definition trim :: "jsstring \<Rightarrow> jsstring" where
  "trim s = rev (dropWhile isSpace (rev (dropWhile isSpace s)))"

text \<open>\<^verbatim>\<open>s.includes(d)\<close> for a one-unit string \<^verbatim>\<open>d\<close>.\<close>

definition includes_js :: "jsstring \<Rightarrow> cu \<Rightarrow> bool" where
  "includes_js s d \<longleftrightarrow> d \<in> set s"

text \<open>
  \<^verbatim>\<open>s.split(d)\<close> for a one-unit separator: the pieces between the occurrences of
  \<^verbatim>\<open>d\<close>, empty pieces kept, so the result has one piece more than \<^verbatim>\<open>s\<close> has
  separators and is never empty.
\<close>

fun split :: "jsstring \<Rightarrow> cu \<Rightarrow> jsstring list" where
  "split [] d = [[]]"
| "split (c # cs) d =
     (if c = d then [] # split cs d
      else (case split cs d of
              p # ps \<Rightarrow> (c # p) # ps
            | [] \<Rightarrow> [[c]]))"

text \<open>\<^verbatim>\<open>lines.join(sep)\<close>.\<close>

fun join :: "jsstring list \<Rightarrow> jsstring \<Rightarrow> jsstring" where
  "join [] sep = []"
| "join [l] sep = l"
| "join (l # ls) sep = l @ sep @ join ls sep"

text \<open>
  The decimal numeral of a column count, as a template literal \<^verbatim>\<open>${n}\<close> renders a
  non-negative integer.
\<close>

definition digit :: "nat \<Rightarrow> cu" where
  "digit n = of_nat (48 + n)"

function decimal :: "nat \<Rightarrow> jsstring" where
  "decimal n = (if n < 10 then [digit n] else decimal (n div 10) @ [digit (n mod 10)])"
  by pat_completeness auto
termination
  by (relation "measure id") auto

section \<open>Counting the columns of a row\<close>

text \<open>
  \<^verbatim>\<open>countColumns\<close>, lines 15 to 36.  \<open>countColumns_cells\<close> is the array \<^verbatim>\<open>cells\<close> when
  the function returns its length: the split of the trimmed row, after the conditional
  \<^verbatim>\<open>shift()\<close> and the conditional \<^verbatim>\<open>pop()\<close>, each guarded by \<^verbatim>\<open>cells.length > 0\<close>.
\<close>

definition countColumns_cells :: "jsstring \<Rightarrow> jsstring list" where
  "countColumns_cells trimmed =
     (let cells = split trimmed pipe;
          cells = (if length cells > 0 \<and> trim (cells ! 0) = [] then tl cells else cells);
          cells = (if length cells > 0 \<and> trim (cells ! (length cells - 1)) = []
                   then butlast cells else cells)
      in cells)"

definition countColumns :: "jsstring \<Rightarrow> nat" where
  "countColumns row =
     (let trimmed = trim row in
      if trimmed = [] \<or> \<not> includes_js trimmed pipe then 0
      else length (countColumns_cells trimmed))"

text \<open>
  The counting procedure in the words of the specification: zero for a row that is empty
  or has no delimiter once trimmed; otherwise the number of pieces of the split, less one
  if the first piece is blank and less one if the last piece is blank.
\<close>

definition blank :: "jsstring \<Rightarrow> bool" where
  "blank p \<longleftrightarrow> list_all isSpace p"

definition countColumns_spec :: "jsstring \<Rightarrow> nat" where
  "countColumns_spec row =
     (let t = trim row in
      if t = [] \<or> count_list t pipe = 0 then 0
      else (let pieces = split t pipe in
            length pieces
              - (if blank (hd pieces) then 1 else 0)
              - (if blank (last pieces) then 1 else 0)))"

section \<open>The patterns\<close>

text \<open>
  The three patterns of the rule use literal characters, the classes \<^verbatim>\<open>\s\<close> and
  \<^verbatim>\<open>.\<close>, one bracketed class, sequencing, alternation and the star.  They have no
  back-reference and no look-around, so whether \<^verbatim>\<open>test\<close> succeeds depends only on the
  regular language of the pattern.  Each pattern starts with \<^verbatim>\<open>^\<close> and ends with
  \<^verbatim>\<open>$\<close> and has no \<^verbatim>\<open>m\<close> flag: \<^verbatim>\<open>test\<close> succeeds iff the whole string is in
  the language of what stands between the two anchors.  None has the \<^verbatim>\<open>g\<close> or
  \<^verbatim>\<open>y\<close> flag, so \<^verbatim>\<open>test\<close> keeps no state between calls.
\<close>

datatype atom =
    Chr cu                \<comment> \<open>a literal character\<close>
  | Space                 \<comment> \<open>\<^verbatim>\<open>\s\<close>\<close>
  | Dot                   \<comment> \<open>\<^verbatim>\<open>.\<close>\<close>
  | Class "atom list"     \<comment> \<open>\<^verbatim>\<open>[...]\<close>\<close>

fun matches_atom :: "atom \<Rightarrow> cu \<Rightarrow> bool" where
  "matches_atom (Chr d) c \<longleftrightarrow> c = d"
| "matches_atom Space c \<longleftrightarrow> isSpace c"
| "matches_atom Dot c \<longleftrightarrow> \<not> isLineTerminator c"
| "matches_atom (Class as) c \<longleftrightarrow> list_ex (\<lambda>a. matches_atom a c) as"

datatype regex =
    Never
  | Empty
  | One atom
  | Then regex regex
  | Or regex regex
  | Many regex            \<comment> \<open>\<^verbatim>\<open>r*\<close>\<close>

text \<open>The language of a pattern.\<close>

inductive_set star :: "jsstring set \<Rightarrow> jsstring set" for A :: "jsstring set" where
  star_Nil: "[] \<in> star A"
| star_app: "u \<in> A \<Longrightarrow> v \<in> star A \<Longrightarrow> u @ v \<in> star A"

fun lang :: "regex \<Rightarrow> jsstring set" where
  "lang Never = {}"
| "lang Empty = {[]}"
| "lang (One a) = {[c] |c. matches_atom a c}"
| "lang (Then r s) = {u @ v |u v. u \<in> lang r \<and> v \<in> lang s}"
| "lang (Or r s) = lang r \<union> lang s"
| "lang (Many r) = star (lang r)"

text \<open>
  The executable matcher: the derivative of the pattern by each code unit of the
  string in turn, then the test whether what is left accepts the empty string.
\<close>

fun nullable :: "regex \<Rightarrow> bool" where
  "nullable Never \<longleftrightarrow> False"
| "nullable Empty \<longleftrightarrow> True"
| "nullable (One a) \<longleftrightarrow> False"
| "nullable (Then r s) \<longleftrightarrow> nullable r \<and> nullable s"
| "nullable (Or r s) \<longleftrightarrow> nullable r \<or> nullable s"
| "nullable (Many r) \<longleftrightarrow> True"

text \<open>
  \<open>then_of\<close> and \<open>or_of\<close> build a sequence and an alternative and drop the parts that
  can match nothing more, which keeps the derivatives small.
\<close>

fun then_of :: "regex \<Rightarrow> regex \<Rightarrow> regex" where
  "then_of Never s = Never"
| "then_of Empty s = s"
| "then_of r s = Then r s"

fun or_of :: "regex \<Rightarrow> regex \<Rightarrow> regex" where
  "or_of Never s = s"
| "or_of r Never = r"
| "or_of r s = Or r s"

fun deriv :: "cu \<Rightarrow> regex \<Rightarrow> regex" where
  "deriv c Never = Never"
| "deriv c Empty = Never"
| "deriv c (One a) = (if matches_atom a c then Empty else Never)"
| "deriv c (Then r s) =
     (if nullable r then or_of (then_of (deriv c r) s) (deriv c s)
      else then_of (deriv c r) s)"
| "deriv c (Or r s) = or_of (deriv c r) (deriv c s)"
| "deriv c (Many r) = then_of (deriv c r) (Many r)"

definition test :: "regex \<Rightarrow> jsstring \<Rightarrow> bool" where
  "test r s \<longleftrightarrow> nullable (fold deriv s r)"

fun seq :: "regex list \<Rightarrow> regex" where
  "seq [] = Empty"
| "seq [r] = r"
| "seq (r # rs) = Then r (seq rs)"

fun alts :: "regex list \<Rightarrow> regex" where
  "alts [] = Never"
| "alts [r] = r"
| "alts (r # rs) = Or r (alts rs)"

definition literal :: "string \<Rightarrow> regex" where
  "literal s = seq (map (\<lambda>c. One (Chr c)) (js s))"

text \<open>Line 6: \<^verbatim>\<open>/^\s*\|.*\|\s*$/\<close>.\<close>

definition TABLE_ROW_REGEX :: regex where
  "TABLE_ROW_REGEX =
     seq [Many (One Space), One (Chr pipe), Many (One Dot), One (Chr pipe), Many (One Space)]"

text \<open>Line 8: \<^verbatim>\<open>/^\s*\|[\s\-:|\s]*\|\s*$/\<close>.\<close>

definition TABLE_SEPARATOR_REGEX :: regex where
  "TABLE_SEPARATOR_REGEX =
     seq [Many (One Space), One (Chr pipe),
          Many (One (Class [Space, Chr 0x2D, Chr 0x3A, Chr pipe, Space])),
          One (Chr pipe), Many (One Space)]"

text \<open>Line 10: \<^verbatim>\<open>/^\s*{%\s*(ifversion|else|endif|elsif).*%}\s*$/\<close>.\<close>

definition LIQUID_ONLY_CELL_REGEX :: regex where
  "LIQUID_ONLY_CELL_REGEX =
     seq [Many (One Space), literal ''{%'', Many (One Space),
          alts [literal ''ifversion'', literal ''else'', literal ''endif'', literal ''elsif''],
          Many (One Dot), literal ''%}'', Many (One Space)]"

section \<open>Rows made of Liquid tags only\<close>

text \<open>
  \<^verbatim>\<open>isLiquidOnlyRow\<close>, lines 41 to 57.  \<open>isLiquidOnlyRow_filteredCells\<close> is the
  \<^verbatim>\<open>filter\<close> of lines 47 to 51, whose callback reads the index of each cell.
\<close>

definition isLiquidOnlyRow_filteredCells :: "jsstring list \<Rightarrow> jsstring list" where
  "isLiquidOnlyRow_filteredCells cells =
     map snd
       (filter
          (\<lambda>(index, cell).
             if index = 0 \<and> trim cell = [] then False
             else if int index = int (length cells) - 1 \<and> trim cell = [] then False
             else True)
          (enumerate 0 cells))"

definition isLiquidOnlyRow :: "jsstring \<Rightarrow> bool" where
  "isLiquidOnlyRow row =
     (let trimmed = trim row in
      if \<not> includes_js trimmed pipe then False
      else (let cells = split trimmed pipe;
                filteredCells = isLiquidOnlyRow_filteredCells cells
            in length filteredCells > 0
               \<and> list_all (test LIQUID_ONLY_CELL_REGEX) filteredCells))"

section \<open>The rule\<close>

text \<open>
  What \<^verbatim>\<open>addError\<close> hands to the callback \<^verbatim>\<open>onError\<close>: the line number, the
  message, the line, the range and no fix.  The range is what \<^verbatim>\<open>getRange\<close> returns, a
  helper that is not part of this file and is a parameter here.
\<close>

record 'r diagnostic =
  lineNumber :: nat
  detail :: jsstring
  context_js :: jsstring
  range_js :: 'r
  fixInfo :: "unit option"

record params =
  frontMatterLines :: "jsstring list"
  lines :: "jsstring list"

text \<open>
  The values a decoded front matter holds, as far as their truthiness goes.  A number
  that is not an integer is truthy, as every non-zero \<open>JNumber\<close> is.
\<close>

datatype jsval =
    JNull
  | JBool bool
  | JNumber int
  | JNaN
  | JString jsstring
  | JObject

fun truthy :: "jsval \<Rightarrow> bool" where
  "truthy JNull \<longleftrightarrow> False"
| "truthy (JBool b) \<longleftrightarrow> b"
| "truthy (JNumber n) \<longleftrightarrow> n \<noteq> 0"
| "truthy JNaN \<longleftrightarrow> False"
| "truthy (JString s) \<longleftrightarrow> s \<noteq> []"
| "truthy JObject \<longleftrightarrow> True"

text \<open>
  The \<^verbatim>\<open>data\<close> of a decoded front matter: \<open>None\<close> when the decoder returns none,
  otherwise the mapping of its keys.  Line 68, \<^verbatim>\<open>fm && fm.autogenerated\<close>.
\<close>

type_synonym fmdata = "(jsstring \<rightharpoonup> jsval) option"

definition autogenerated :: "fmdata \<Rightarrow> bool" where
  "autogenerated fm =
     (case fm of
        None \<Rightarrow> False
      | Some data \<Rightarrow> (case data (js ''autogenerated'') of None \<Rightarrow> False | Some v \<Rightarrow> truthy v))"

text \<open>The four variables of lines 71 to 74.\<close>

record scan_state =
  inTable :: bool
  expectedColumnCount :: "nat option"
  tableStartLine :: "nat option"
  headerRow :: "jsstring option"

definition initial :: scan_state where
  "initial = \<lparr>inTable = False, expectedColumnCount = None, tableStartLine = None,
              headerRow = None\<rparr>"

text \<open>
  \<^verbatim>\<open>expectedColumnCount\<close> is \<^verbatim>\<open>null\<close> or a number.  In a comparison and in a
  subtraction \<^verbatim>\<open>null\<close> counts as 0; in a template literal it reads \<^verbatim>\<open>null\<close>.
\<close>

definition toNumber :: "nat option \<Rightarrow> nat" where
  "toNumber e = (case e of None \<Rightarrow> 0 | Some n \<Rightarrow> n)"

definition toString :: "nat option \<Rightarrow> jsstring" where
  "toString e = (case e of None \<Rightarrow> js ''null'' | Some n \<Rightarrow> decimal n)"

text \<open>Lines 116 to 120.  Each difference is taken where it is positive.\<close>

definition errorMessage :: "nat \<Rightarrow> nat option \<Rightarrow> jsstring" where
  "errorMessage actualColumnCount expected =
     (if actualColumnCount > toNumber expected then
        js ''Table row has '' @ decimal actualColumnCount @ js '' columns but header has ''
          @ toString expected @ js ''. Add ''
          @ decimal (actualColumnCount - toNumber expected)
          @ js '' more column(s) to the header row to match this row.''
      else
        js ''Table row has '' @ decimal actualColumnCount @ js '' columns but header has ''
          @ toString expected @ js ''. Add ''
          @ decimal (toNumber expected - actualColumnCount)
          @ js '' missing column(s) to this row.'')"

text \<open>
  Line 84 reads \<^verbatim>\<open>lines[i + 1]\<close>, which is \<^verbatim>\<open>undefined\<close> past the end; line 85 tests
  it for truthiness first, which the empty string fails too.
\<close>

definition nextLine :: "jsstring list \<Rightarrow> nat \<Rightarrow> jsstring option" where
  "nextLine ls i = (if i + 1 < length ls then Some (ls ! (i + 1)) else None)"

definition confirmsTable :: "jsstring option \<Rightarrow> bool" where
  "confirmsTable nl =
     (case nl of None \<Rightarrow> False | Some l \<Rightarrow> l \<noteq> [] \<and> test TABLE_SEPARATOR_REGEX l)"

text \<open>
  One turn of the loop of lines 76 to 132, for \<open>i < length ls\<close>: the state after it and
  the diagnostics it reports.
\<close>

definition body ::
  "(jsstring \<Rightarrow> jsstring \<Rightarrow> 'r) \<Rightarrow> jsstring list \<Rightarrow> nat \<Rightarrow> scan_state
     \<Rightarrow> scan_state \<times> 'r diagnostic list" where
  "body getRange ls i st =
     (let line = ls ! i;
          isTableRow = test TABLE_ROW_REGEX line;
          isSeparatorRow = test TABLE_SEPARATOR_REGEX line
      in
      if \<not> inTable st \<and> isTableRow \<and> confirmsTable (nextLine ls i) then
        (\<lparr>inTable = True, expectedColumnCount = Some (countColumns line),
          tableStartLine = Some (i + 1), headerRow = Some line\<rparr>, [])
      else if inTable st \<and> \<not> isTableRow then
        (\<lparr>inTable = False, expectedColumnCount = None, tableStartLine = None,
          headerRow = None\<rparr>, [])
      else if inTable st \<and> isTableRow \<and> \<not> isSeparatorRow then
        (if isLiquidOnlyRow line then (st, [])
         else (let actualColumnCount = countColumns line in
               if Some actualColumnCount \<noteq> expectedColumnCount st then
                 (st, [\<lparr>lineNumber = i + 1,
                         detail = errorMessage actualColumnCount (expectedColumnCount st),
                         context_js = line,
                         range_js = getRange line (trim line),
                         fixInfo = None\<rparr>])
               else (st, [])))
      else (st, []))"

function loop ::
  "(jsstring \<Rightarrow> jsstring \<Rightarrow> 'r) \<Rightarrow> jsstring list \<Rightarrow> nat \<Rightarrow> scan_state
     \<Rightarrow> 'r diagnostic list \<Rightarrow> 'r diagnostic list" where
  "loop getRange ls i st errors =
     (if i < length ls then
        (case body getRange ls i st of
           (st', reported) \<Rightarrow> loop getRange ls (i + 1) st' (errors @ reported))
      else errors)"
  by pat_completeness auto
termination
  by (relation "measure (\<lambda>(getRange, ls, i, st, errors). length ls - i)") auto

declare loop.simps [simp del]

text \<open>
  The rule's \<^verbatim>\<open>function\<close>, lines 64 to 133, returning the diagnostics it hands to
  \<^verbatim>\<open>onError\<close>, in order.  The front-matter decoder is not part of this file either and
  is the parameter \<open>frontmatter\<close>, from the joined front matter to its \<^verbatim>\<open>data\<close>.
\<close>

definition tableColumnIntegrity ::
  "(jsstring \<Rightarrow> fmdata) \<Rightarrow> (jsstring \<Rightarrow> jsstring \<Rightarrow> 'r) \<Rightarrow> params \<Rightarrow> 'r diagnostic list" where
  "tableColumnIntegrity frontmatter getRange ps =
     (let frontmatterString = join (frontMatterLines ps) (js [CHR 0x0A]);
          fm = frontmatter frontmatterString
      in if autogenerated fm then []
         else loop getRange (lines ps) 0 initial [])"

text \<open>
  The state in which the loop starts turn \<open>i\<close>, and what turn \<open>i\<close> reports.  A line
  \<open>i\<close> lies in an active table region when \<open>inTable (state_at getRange ls i)\<close>.
\<close>

primrec state_at :: "(jsstring \<Rightarrow> jsstring \<Rightarrow> 'r) \<Rightarrow> jsstring list \<Rightarrow> nat \<Rightarrow> scan_state" where
  "state_at getRange ls 0 = initial"
| "state_at getRange ls (Suc i) = fst (body getRange ls i (state_at getRange ls i))"

definition reported_at ::
  "(jsstring \<Rightarrow> jsstring \<Rightarrow> 'r) \<Rightarrow> jsstring list \<Rightarrow> nat \<Rightarrow> 'r diagnostic list" where
  "reported_at getRange ls i = snd (body getRange ls i (state_at getRange ls i))"

section \<open>The rule with its failures explicit\<close>














section \<open>Properties of the string operations\<close>

lemma split_not_Nil: "split s d \<noteq> []"
  by (induction s) (auto split: list.splits)

lemma length_split: "length (split s d) = Suc (count_list s d)"
proof (induction s)
  case Nil
  show ?case by simp
next
  case (Cons c cs)
  obtain p ps where "split cs d = p # ps"
    using split_not_Nil [of cs d] by (cases "split cs d") auto
  with Cons show ?case by auto
qed

lemma hd_split_Cons:
  "hd (split (c # cs) d) = (if c = d then [] else c # hd (split cs d))"
  using split_not_Nil [of cs d] by (cases "split cs d") auto

lemma last_split_snoc:
  "last (split (s @ [c]) d) = (if c = d then [] else last (split s d) @ [c])"
proof (induction s)
  case Nil
  show ?case by simp
next
  case (Cons a s)
  obtain p ps where ps: "split (s @ [c]) d = p # ps"
    using split_not_Nil [of "s @ [c]" d] by (cases "split (s @ [c]) d") auto
  obtain q qs where qs: "split s d = q # qs"
    using split_not_Nil [of s d] by (cases "split s d") auto
  have len: "length ps = length qs + (if c = d then 1 else 0)"
    using length_split [of "s @ [c]" d] length_split [of s d] ps qs by simp
  show ?case
  proof (cases "ps = []")
    case True
    with len have "qs = []" "c \<noteq> d" by (auto split: if_splits)
    with Cons ps qs True show ?thesis by auto
  next
    case False
    with len Cons ps qs show ?thesis by (auto split: if_splits)
  qed
qed

lemma all_dropWhile_iff: "(\<forall>x\<in>set (dropWhile P s). P x) \<longleftrightarrow> (\<forall>x\<in>set s. P x)"
proof
  assume a: "\<forall>x\<in>set (dropWhile P s). P x"
  have "set s = set (takeWhile P s) \<union> set (dropWhile P s)"
    by (metis set_append takeWhile_dropWhile_id)
  with a show "\<forall>x\<in>set s. P x"
    by (auto dest: set_takeWhileD)
next
  assume "\<forall>x\<in>set s. P x"
  then show "\<forall>x\<in>set (dropWhile P s). P x"
    by (auto dest: set_dropWhileD)
qed

lemma dropWhile_keeps:
  assumes "x \<in> set s" and "\<not> P x"
  shows "x \<in> set (dropWhile P s)"
proof -
  have "set s = set (takeWhile P s) \<union> set (dropWhile P s)"
    by (metis set_append takeWhile_dropWhile_id)
  with assms show ?thesis
    by (auto dest: set_takeWhileD)
qed

lemma trim_Nil_iff: "trim s = [] \<longleftrightarrow> blank s"
  by (simp add: trim_def blank_def list_all_iff dropWhile_eq_Nil_conv all_dropWhile_iff)

lemma blank_Nil: "blank []"
  by (simp add: blank_def)

lemma blank_Cons: "blank (c # cs) \<longleftrightarrow> isSpace c \<and> blank cs"
  by (simp add: blank_def)

lemma blank_snoc: "blank (cs @ [c]) \<longleftrightarrow> blank cs \<and> isSpace c"
  by (simp add: blank_def)

lemma not_space_pipe: "\<not> isSpace pipe"
  by (simp add: isSpace_def isWhiteSpace_def isLineTerminator_def pipe_def)

lemma rev_dropWhile_rev_prefix:
  "u = rev (dropWhile P (rev u)) @ rev (takeWhile P (rev u))"
proof -
  have "rev (takeWhile P (rev u) @ dropWhile P (rev u)) = u"
    by (simp only: takeWhile_dropWhile_id rev_rev_ident)
  then show ?thesis
    by (simp only: rev_append)
qed

lemma trim_hd_not_space: "trim s \<noteq> [] \<Longrightarrow> \<not> isSpace (hd (trim s))"
proof -
  assume ne: "trim s \<noteq> []"
  let ?u = "dropWhile isSpace s"
  have "?u = trim s @ rev (takeWhile isSpace (rev ?u))"
    unfolding trim_def by (rule rev_dropWhile_rev_prefix)
  with ne have hd: "hd ?u = hd (trim s)" and une: "?u \<noteq> []"
    by (metis hd_append2, metis append_is_Nil_conv)
  from une have "\<not> isSpace (hd ?u)"
    by (rule hd_dropWhile)
  with hd show ?thesis by simp
qed

lemma trim_last_not_space: "trim s \<noteq> [] \<Longrightarrow> \<not> isSpace (last (trim s))"
proof -
  assume ne: "trim s \<noteq> []"
  then have "dropWhile isSpace (rev (dropWhile isSpace s)) \<noteq> []"
    by (simp add: trim_def)
  then have "\<not> isSpace (hd (dropWhile isSpace (rev (dropWhile isSpace s))))"
    by (rule hd_dropWhile)
  moreover have "last (trim s) = hd (dropWhile isSpace (rev (dropWhile isSpace s)))"
    using ne by (simp add: trim_def last_rev)
  ultimately show ?thesis by simp
qed


lemma trim_keeps:
  assumes "x \<in> set s" and "\<not> isSpace x"
  shows "x \<in> set (trim s)"
proof -
  from assms have "x \<in> set (rev (dropWhile isSpace s))"
    by (simp add: dropWhile_keeps)
  then have "x \<in> set (dropWhile isSpace (rev (dropWhile isSpace s)))"
    using assms(2) by (rule dropWhile_keeps)
  then show ?thesis
    by (simp add: trim_def)
qed

lemma js_eq_Nil_iff [simp]: "js s = [] \<longleftrightarrow> s = []"
  by (simp add: js_def)

section \<open>Properties of the column count\<close>

lemma includes_js_iff: "includes_js s d \<longleftrightarrow> count_list s d \<noteq> 0"
  by (simp add: includes_js_def count_list_0_iff)

lemma shift_pop_length:
  assumes "2 \<le> length cs"
  shows "(let cells = cs;
          cells = (if length cells > 0 \<and> trim (cells ! 0) = [] then tl cells else cells);
          cells = (if length cells > 0 \<and> trim (cells ! (length cells - 1)) = []
                   then butlast cells else cells)
      in length cells) =
     length cs - (if blank (hd cs) then 1 else 0) - (if blank (last cs) then 1 else 0)"
proof -
  from assms obtain x zs where cs: "cs = x # zs"
    by (cases cs) auto
  with assms have zs: "zs \<noteq> []"
    by auto
  have l: "last cs = last zs" "zs ! (length zs - 1) = last zs"
    "cs ! (length cs - 1) = last zs"
    using cs zs by (simp_all add: last_conv_nth)
  show ?thesis
    using zs l by (simp add: cs Let_def trim_Nil_iff)
qed

lemma countColumns_eq_spec: "countColumns row = countColumns_spec row"
proof -
  have "2 \<le> length (split (trim row) pipe)" if "count_list (trim row) pipe \<noteq> 0"
    using that by (simp add: length_split)
  then show ?thesis
    using shift_pop_length [of "split (trim row) pipe"]
    by (auto simp add: countColumns_def countColumns_spec_def countColumns_cells_def
        includes_js_iff Let_def)
qed

lemma hd_split_not_blank:
  assumes "t \<noteq> []" "hd t \<noteq> d" "\<not> isSpace (hd t)"
  shows "\<not> blank (hd (split t d))"
  using assms by (cases t) (simp_all add: hd_split_Cons blank_Cons del: split.simps)

lemma last_split_not_blank:
  assumes "t \<noteq> []" "last t \<noteq> d" "\<not> isSpace (last t)"
  shows "\<not> blank (last (split t d))"
  using assms by (cases t rule: rev_cases) (simp_all add: last_split_snoc blank_snoc)

lemma countColumns_no_drop:
  assumes "pipe \<in> set (trim row)" "hd (trim row) \<noteq> pipe" "last (trim row) \<noteq> pipe"
  shows "countColumns_cells (trim row) = split (trim row) pipe"
proof -
  let ?t = "trim row"
  from assms(1) have ne: "?t \<noteq> []" by auto
  have h: "\<not> blank (hd (split ?t pipe))"
    using ne assms(2) trim_hd_not_space [OF ne] by (rule hd_split_not_blank)
  have l: "\<not> blank (last (split ?t pipe))"
    using ne assms(3) trim_last_not_space [OF ne] by (rule last_split_not_blank)
  have n: "split ?t pipe \<noteq> []" by (rule split_not_Nil)
  from h l n show ?thesis
    by (simp add: countColumns_cells_def Let_def trim_Nil_iff hd_conv_nth last_conv_nth)
qed

lemma filteredCells_ends:
  "isLiquidOnlyRow_filteredCells (x # ys @ [y]) =
     (if trim x = [] then [] else [x]) @ ys @ (if trim y = [] then [] else [y])"
proof -
  have mid: "filter
          (\<lambda>(index, cell).
             if index = 0 \<and> trim cell = [] then False
             else if int index = int (length (x # ys @ [y])) - 1 \<and> trim cell = [] then False
             else True)
          (enumerate (Suc 0) ys) = enumerate (Suc 0) ys"
    by (rule filter_True) (auto simp: in_set_enumerate_eq)
  show ?thesis
    by (simp add: isLiquidOnlyRow_filteredCells_def enumerate_append_eq mid map_snd_enumerate
        del: length_append)
      (simp add: mid [simplified])
qed

lemma shift_pop_ends:
  "(let cells = x # ys @ [y];
        cells = (if length cells > 0 \<and> trim (cells ! 0) = [] then tl cells else cells);
        cells = (if length cells > 0 \<and> trim (cells ! (length cells - 1)) = []
                 then butlast cells else cells)
    in cells) =
   (if trim x = [] then [] else [x]) @ ys @ (if trim y = [] then [] else [y])"
  by (simp add: Let_def nth_append butlast_append)

lemma filteredCells_eq_shift_pop:
  "isLiquidOnlyRow_filteredCells cs =
     (let cells = cs;
        cells = (if length cells > 0 \<and> trim (cells ! 0) = [] then tl cells else cells);
        cells = (if length cells > 0 \<and> trim (cells ! (length cells - 1)) = []
                 then butlast cells else cells)
      in cells)"
proof (cases cs)
  case Nil
  then show ?thesis
    by (simp add: isLiquidOnlyRow_filteredCells_def)
next
  case (Cons x zs)
  show ?thesis
  proof (cases zs rule: rev_cases)
    case Nil
    with Cons show ?thesis
      by (simp add: isLiquidOnlyRow_filteredCells_def)
  next
    case (snoc ys y)
    with Cons show ?thesis
      using filteredCells_ends [of x ys y] shift_pop_ends [of x ys y] by simp
  qed
qed

section \<open>The matcher decides the language of a pattern\<close>

lemma lang_then_of: "lang (then_of r s) = lang (Then r s)"
  by (cases r) auto

lemma lang_or_of: "lang (or_of r s) = lang r \<union> lang s"
  by (cases r; cases s) auto

lemma nullable_iff: "nullable r \<longleftrightarrow> [] \<in> lang r"
  by (induction r) (auto intro: star_Nil)

lemma star_Cons_split:
  assumes "x \<in> star A" and "x = c # w"
  shows "\<exists>u v. w = u @ v \<and> c # u \<in> A \<and> v \<in> star A"
  using assms
proof (induction arbitrary: w)
  case star_Nil
  then show ?case by simp
next
  case (star_app u v)
  show ?case
  proof (cases u)
    case Nil
    with star_app show ?thesis by simp
  next
    case (Cons a u')
    with star_app.prems have "a = c" "w = u' @ v" by simp_all
    with Cons star_app.hyps show ?thesis by blast
  qed
qed

lemma star_Cons_iff:
  "c # w \<in> star A \<longleftrightarrow> (\<exists>u v. w = u @ v \<and> c # u \<in> A \<and> v \<in> star A)"
proof
  assume "c # w \<in> star A"
  then show "\<exists>u v. w = u @ v \<and> c # u \<in> A \<and> v \<in> star A"
    by (rule star_Cons_split) simp
next
  assume "\<exists>u v. w = u @ v \<and> c # u \<in> A \<and> v \<in> star A"
  then obtain u v where "w = u @ v" "c # u \<in> A" "v \<in> star A" by blast
  then show "c # w \<in> star A"
    using star_app [of "c # u" A v] by simp
qed

lemma lang_deriv: "lang (deriv c r) = {w. c # w \<in> lang r}"
proof (induction r)
  case (Then r s)
  have "{w. c # w \<in> lang (Then r s)} =
          {u @ v |u v. c # u \<in> lang r \<and> v \<in> lang s} \<union> (if [] \<in> lang r then {w. c # w \<in> lang s} else {})"
    by (auto simp: Cons_eq_append_conv)
  with Then show ?case
    by (auto simp: lang_then_of lang_or_of nullable_iff)
next
  case (Many r)
  then show ?case
    by (auto simp: lang_then_of star_Cons_iff)
qed (auto simp: lang_or_of)

lemma test_iff_lang: "test r s \<longleftrightarrow> s \<in> lang r"
  unfolding test_def
  by (induction s arbitrary: r) (simp_all add: nullable_iff lang_deriv)


lemma separator_not_Nil: "test TABLE_SEPARATOR_REGEX s \<Longrightarrow> s \<noteq> []"
  by (auto simp: test_iff_lang TABLE_SEPARATOR_REGEX_def)

lemma lang_ThenI: "u \<in> lang r \<Longrightarrow> v \<in> lang s \<Longrightarrow> u @ v \<in> lang (Then r s)"
  by auto

lemma lang_units: "w \<in> lang (seq (map (\<lambda>c. One (Chr c)) w))"
proof (induction w)
  case Nil
  show ?case by simp
next
  case (Cons c w)
  then show ?case
    by (cases w) auto
qed

lemma lang_literal: "js s \<in> lang (literal s)"
  unfolding literal_def by (rule lang_units)

lemma star_atoms: "list_all (matches_atom a) w \<Longrightarrow> w \<in> star (lang (One a))"
proof (induction w)
  case Nil
  show ?case by (rule star_Nil)
next
  case (Cons c w)
  then have "[c] \<in> lang (One a)" "w \<in> star (lang (One a))"
    by simp_all
  then have "[c] @ w \<in> star (lang (One a))"
    by (rule star_app)
  then show ?case by simp
qed

lemma keyword_prefix_accepted:
  assumes kw: "kw \<in> {''ifversion'', ''else'', ''endif'', ''elsif''}"
    and rest: "list_all (\<lambda>c. \<not> isLineTerminator c) rest"
  shows "test LIQUID_ONLY_CELL_REGEX (js ''{% '' @ js kw @ rest @ js ''%}'')"
proof -
  have "list_all (matches_atom Space) (js '' '')"
    by (simp add: list_all_iff js_def isSpace_def isWhiteSpace_def)
  then have "js '' '' \<in> star (lang (One Space))"
    by (rule star_atoms)
  then have spaces: "[] \<in> lang (Many (One Space))" "js '' '' \<in> lang (Many (One Space))"
    by (simp_all add: star_Nil)
  have opens: "js ''{%'' \<in> lang (literal ''{%'')" and closes: "js ''%}'' \<in> lang (literal ''%}'')"
    by (rule lang_literal)+
  have keyword: "js kw \<in> lang (alts [literal ''ifversion'', literal ''else'', literal ''endif'',
      literal ''elsif''])"
    using kw lang_literal [of kw] by auto
  from rest have "list_all (matches_atom Dot) rest"
    by (simp add: list_all_iff)
  then have "rest \<in> star (lang (One Dot))"
    by (rule star_atoms)
  then have body: "rest \<in> lang (Many (One Dot))"
    by simp
  have "[] @ js ''{%'' @ js '' '' @ js kw @ rest @ js ''%}'' @ [] \<in> lang LIQUID_ONLY_CELL_REGEX"
    unfolding LIQUID_ONLY_CELL_REGEX_def seq.simps
    by (intro lang_ThenI spaces opens closes keyword body)
  moreover have "js ''{% '' = js ''{%'' @ js '' ''"
    by (simp add: js_def)
  ultimately show ?thesis
    by (simp add: test_iff_lang)
qed

section \<open>The loop, turn by turn\<close>

lemma loop_step:
  "i < length ls \<Longrightarrow>
     loop getRange ls i st errors =
       loop getRange ls (Suc i) (fst (body getRange ls i st)) (errors @ snd (body getRange ls i st))"
  by (subst loop.simps) (simp add: case_prod_beta)

lemma loop_done: "\<not> i < length ls \<Longrightarrow> loop getRange ls i st errors = errors"
  by (subst loop.simps) simp

lemma loop_from_state_at:
  "loop getRange ls i (state_at getRange ls i) errors =
     errors @ concat (map (reported_at getRange ls) [i..<length ls])"
proof (induction "length ls - i" arbitrary: i errors)
  case 0
  then show ?case by (simp add: loop_done)
next
  case (Suc n)
  then have lt: "i < length ls" and n: "n = length ls - Suc i"
    by simp_all
  have "loop getRange ls i (state_at getRange ls i) errors =
        loop getRange ls (Suc i) (state_at getRange ls (Suc i))
          (errors @ reported_at getRange ls i)"
    using lt by (simp add: loop_step reported_at_def)
  also have "\<dots> = (errors @ reported_at getRange ls i)
                   @ concat (map (reported_at getRange ls) [Suc i..<length ls])"
    using n by (rule Suc.hyps(1))
  also have "\<dots> = errors @ concat (map (reported_at getRange ls) [i..<length ls])"
    using lt by (simp add: upt_conv_Cons)
  finally show ?case .
qed

lemma tableColumnIntegrity_reported:
  assumes "\<not> autogenerated (frontmatter (join (frontMatterLines ps) (js [CHR 0x0A])))"
  shows "tableColumnIntegrity frontmatter getRange ps =
           concat (map (reported_at getRange (lines ps)) [0..<length (lines ps)])"
  using assms loop_from_state_at [of getRange "lines ps" 0 "[]"]
  by (simp add: tableColumnIntegrity_def Let_def)

lemma tableColumnIntegrity_autogenerated:
  "autogenerated (frontmatter (join (frontMatterLines ps) (js [CHR 0x0A])))
     \<Longrightarrow> tableColumnIntegrity frontmatter getRange ps = []"
  by (simp add: tableColumnIntegrity_def Let_def)

lemma body_lineNumber:
  "d \<in> set (snd (body getRange ls i st)) \<Longrightarrow> lineNumber d = i + 1"
  by (auto simp: body_def Let_def split: if_splits)

lemma reported_at_lineNumber:
  "d \<in> set (reported_at getRange ls i) \<Longrightarrow> lineNumber d = i + 1"
  unfolding reported_at_def by (rule body_lineNumber)

lemma reported_member:
  assumes "d \<in> set (tableColumnIntegrity frontmatter getRange ps)"
  shows "\<exists>j<length (lines ps). d \<in> set (reported_at getRange (lines ps) j)"
proof (cases "autogenerated (frontmatter (join (frontMatterLines ps) (js [CHR 0x0A])))")
  case True
  with assms show ?thesis
    by (simp add: tableColumnIntegrity_autogenerated)
next
  case False
  with assms show ?thesis
    by (auto simp: tableColumnIntegrity_reported)
qed

lemma nothing_reported:
  assumes "\<forall>j<length (lines ps). reported_at getRange (lines ps) j = []"
  shows "tableColumnIntegrity frontmatter getRange ps = []"
proof (rule ccontr)
  assume "tableColumnIntegrity frontmatter getRange ps \<noteq> []"
  then obtain d where "d \<in> set (tableColumnIntegrity frontmatter getRange ps)"
    by (cases "tableColumnIntegrity frontmatter getRange ps") auto
  then obtain j where "j < length (lines ps)" "d \<in> set (reported_at getRange (lines ps) j)"
    using reported_member by blast
  with assms show False by simp
qed

lemma filter_concat_upt:
  assumes "\<And>k d. d \<in> set (f k) \<Longrightarrow> lineNumber d = k + 1"
  shows "filter (\<lambda>d. lineNumber d = i + 1) (concat (map f [0..<n])) = (if i < n then f i else [])"
proof (induction n)
  case 0
  show ?case by simp
next
  case (Suc n)
  have "filter (\<lambda>d. lineNumber d = i + 1) (f n) = (if i = n then f n else [])"
    using assms [of _ n] by (auto simp: filter_empty_conv filter_id_conv)
  with Suc show ?case by auto
qed

lemma filter_reported:
  assumes "\<not> autogenerated (frontmatter (join (frontMatterLines ps) (js [CHR 0x0A])))"
    and "i < length (lines ps)"
  shows "filter (\<lambda>d. lineNumber d = i + 1) (tableColumnIntegrity frontmatter getRange ps) =
           reported_at getRange (lines ps) i"
  using assms filter_concat_upt [of "reported_at getRange (lines ps)" i "length (lines ps)"]
  by (simp add: tableColumnIntegrity_reported reported_at_lineNumber)

lemma filter_line_cases:
  assumes "i < length (lines ps)"
  shows "filter (\<lambda>d. lineNumber d = i + 1) (tableColumnIntegrity frontmatter getRange ps) = []
         \<or> filter (\<lambda>d. lineNumber d = i + 1) (tableColumnIntegrity frontmatter getRange ps) =
             reported_at getRange (lines ps) i"
  using assms filter_reported [of frontmatter ps i getRange]
    tableColumnIntegrity_autogenerated [of frontmatter ps getRange]
  by (cases "autogenerated (frontmatter (join (frontMatterLines ps) (js [CHR 0x0A])))") simp_all

section \<open>One turn of the loop\<close>

lemma confirmsTable_nextLine:
  "confirmsTable (nextLine ls i) \<longleftrightarrow>
     i + 1 < length ls \<and> test TABLE_SEPARATOR_REGEX (ls ! (i + 1))"
  by (auto simp: confirmsTable_def nextLine_def dest: separator_not_Nil)

lemma body_separator:
  "test TABLE_SEPARATOR_REGEX (ls ! i) \<Longrightarrow> snd (body getRange ls i st) = []"
  by (simp add: body_def Let_def)

lemma body_liquid:
  "isLiquidOnlyRow (ls ! i) \<Longrightarrow> snd (body getRange ls i st) = []"
  by (simp add: body_def Let_def)

lemma body_outside:
  assumes "\<not> inTable st"
  shows "snd (body getRange ls i st) = []"
    and "\<not> (test TABLE_ROW_REGEX (ls ! i) \<and> confirmsTable (nextLine ls i))
           \<Longrightarrow> fst (body getRange ls i st) = st"
  using assms by (auto simp: body_def Let_def)


lemma body_expected:
  assumes "inTable st \<longrightarrow> expectedColumnCount st = Some c"
    and "test TABLE_ROW_REGEX (ls ! i) \<longrightarrow> countColumns (ls ! i) = c"
  shows "snd (body getRange ls i st) = []"
    and "inTable (fst (body getRange ls i st)) \<longrightarrow>
           expectedColumnCount (fst (body getRange ls i st)) = Some c"
  using assms by (auto simp: body_def Let_def)

lemma outside_from:
  assumes "\<not> inTable (state_at getRange ls i)"
    and "i \<le> k"
    and "\<forall>j. i \<le> j \<and> j < k \<longrightarrow>
           \<not> (test TABLE_ROW_REGEX (ls ! j) \<and> confirmsTable (nextLine ls j))"
  shows "state_at getRange ls k = state_at getRange ls i
         \<and> (\<forall>j. i \<le> j \<and> j < k \<longrightarrow> reported_at getRange ls j = [])"
  using assms(2,3)
proof (induction k rule: dec_induct)
  case base
  show ?case by auto
next
  case (step k)
  then have st: "state_at getRange ls k = state_at getRange ls i"
    and rep: "\<forall>j. i \<le> j \<and> j < k \<longrightarrow> reported_at getRange ls j = []"
    and here: "\<not> (test TABLE_ROW_REGEX (ls ! k) \<and> confirmsTable (nextLine ls k))"
    by simp_all
  have out: "\<not> inTable (state_at getRange ls k)"
    using assms(1) by (simp add: st)
  have "state_at getRange ls (Suc k) = state_at getRange ls i"
    using body_outside(2) [OF out here] st by simp
  moreover have "reported_at getRange ls k = []"
    unfolding reported_at_def using out by (rule body_outside(1))
  ultimately show ?case
    using rep by (auto simp: less_Suc_eq)
qed

lemma outside_until:
  assumes "\<forall>j<k. \<not> (test TABLE_ROW_REGEX (ls ! j) \<and> confirmsTable (nextLine ls j))"
  shows "state_at getRange ls k = initial \<and> (\<forall>j<k. reported_at getRange ls j = [])"
  using assms outside_from [of getRange ls 0 k] by (simp add: initial_def)

lemma active_region_expected:
  "inTable (state_at getRange ls i) \<Longrightarrow>
     \<exists>h<i. test TABLE_ROW_REGEX (ls ! h) \<and> confirmsTable (nextLine ls h)
        \<and> expectedColumnCount (state_at getRange ls i) = Some (countColumns (ls ! h))"
proof (induction i)
  case 0
  then show ?case by (simp add: initial_def)
next
  case (Suc i)
  show ?case
  proof (cases "inTable (state_at getRange ls i)")
    case True
    with Suc.IH obtain h where h: "h < i" "test TABLE_ROW_REGEX (ls ! h)"
      "confirmsTable (nextLine ls h)"
      "expectedColumnCount (state_at getRange ls i) = Some (countColumns (ls ! h))"
      by blast
    from Suc.prems True have "state_at getRange ls (Suc i) = state_at getRange ls i"
      by (auto simp: body_def Let_def split: if_splits)
    with h show ?thesis
      using less_SucI by metis
  next
    case False
    with Suc.prems have "test TABLE_ROW_REGEX (ls ! i) \<and> confirmsTable (nextLine ls i)
      \<and> expectedColumnCount (state_at getRange ls (Suc i)) = Some (countColumns (ls ! i))"
      by (auto simp: body_def Let_def split: if_splits)
    then show ?thesis
      by blast
  qed
qed

lemma expected_kept:
  assumes "inTable (state_at getRange ls k) \<longrightarrow>
             expectedColumnCount (state_at getRange ls k) = Some c"
    and "\<forall>j. k \<le> j \<and> j < m \<longrightarrow> (test TABLE_ROW_REGEX (ls ! j) \<longrightarrow> countColumns (ls ! j) = c)"
    and "k \<le> j" and "j < m"
  shows "reported_at getRange ls j = []
         \<and> (inTable (state_at getRange ls (Suc j)) \<longrightarrow>
              expectedColumnCount (state_at getRange ls (Suc j)) = Some c)"
  using assms(3,4)
proof (induction j rule: dec_induct)
  case base
  with assms(1,2) show ?case
    using body_expected [of "state_at getRange ls k" c ls k getRange]
    by (simp add: reported_at_def)
next
  case (step j)
  then have inv: "inTable (state_at getRange ls (Suc j)) \<longrightarrow>
              expectedColumnCount (state_at getRange ls (Suc j)) = Some c"
    by simp
  from step assms(2) have "test TABLE_ROW_REGEX (ls ! Suc j) \<longrightarrow> countColumns (ls ! Suc j) = c"
    by simp
  with inv show ?case
    using body_expected [of "state_at getRange ls (Suc j)" c ls "Suc j" getRange]
    by (simp add: reported_at_def)
qed

section \<open>The rule never faults\<close>

















section \<open>Example lines\<close>

lemma row_header: "test TABLE_ROW_REGEX (js ''| Name | Value |'')"
  by code_simp

lemma separator_dashes: "test TABLE_SEPARATOR_REGEX (js ''|------|-------|'')"
  by code_simp

lemma row_dashes: "test TABLE_ROW_REGEX (js ''|------|-------|'')"
  by code_simp

lemma count_header: "countColumns (js ''| Name | Value |'') = 2"
  by code_simp

lemma row_abc:
  "test TABLE_ROW_REGEX (js ''| a | b | c |'')"
  "\<not> test TABLE_SEPARATOR_REGEX (js ''| a | b | c |'')"
  "\<not> isLiquidOnlyRow (js ''| a | b | c |'')"
  "countColumns (js ''| a | b | c |'') = 3"
  by code_simp+

lemma row_a:
  "test TABLE_ROW_REGEX (js ''| a |'')"
  "\<not> test TABLE_SEPARATOR_REGEX (js ''| a |'')"
  "\<not> isLiquidOnlyRow (js ''| a |'')"
  "countColumns (js ''| a |'') = 1"
  by code_simp+

lemma count_ab: "countColumns (js ''| a | b |'') = 2"
  by code_simp

lemma separator_colons: "test TABLE_SEPARATOR_REGEX (js ''|:-|-:|'')"
  by code_simp

lemma row_else:
  "test TABLE_ROW_REGEX (js ''|{% else %}|'')"
  "\<not> test TABLE_SEPARATOR_REGEX (js ''|{% else %}|'')"
  "isLiquidOnlyRow (js ''|{% else %}|'')"
  "countColumns (js ''|{% else %}|'') = 1"
  by code_simp+

lemma liquid_example: "isLiquidOnlyRow (js ''{% ifversion fpt %}|{% endif %}'')"
  by code_simp

lemma row_text:
  "\<not> test TABLE_ROW_REGEX (js ''abc'')"
  "countColumns (js ''abc'') = 0"
  by code_simp+

lemma row_elseware:
  "test TABLE_ROW_REGEX (js ''|{% elseware %}|'')"
  "\<not> test TABLE_SEPARATOR_REGEX (js ''|{% elseware %}|'')"
  "isLiquidOnlyRow (js ''|{% elseware %}|'')"
  "countColumns (js ''|{% elseware %}|'') = 1"
  by code_simp+

lemma row_ifversioned:
  "isLiquidOnlyRow (js ''|{% ifversioned %}|{% ifversioned %}|{% ifversioned %}|'')"
  by code_simp

lemma state_after_header_separator:
  "state_at getRange (js ''| Name | Value |'' # js ''|------|-------|'' # rest) 2 =
     \<lparr>inTable = True, expectedColumnCount = Some 2, tableStartLine = Some 1,
      headerRow = Some (js ''| Name | Value |'')\<rparr>"
  by (simp add: numeral_2_eq_2 body_def nextLine_def confirmsTable_def initial_def
      row_header separator_dashes row_dashes count_header)

lemma reported_header_separator:
  "reported_at getRange (js ''| Name | Value |'' # js ''|------|-------|'' # rest) 0 = []"
  "reported_at getRange (js ''| Name | Value |'' # js ''|------|-------|'' # rest) (Suc 0) = []"
  by (simp_all add: reported_at_def body_def nextLine_def confirmsTable_def initial_def
      row_header separator_dashes row_dashes count_header)

lemma table_of_three:
  "tableColumnIntegrity (\<lambda>s. None) getRange
     \<lparr>frontMatterLines = f, lines = [js ''| Name | Value |'', js ''|------|-------|'', r]\<rparr> =
   reported_at getRange [js ''| Name | Value |'', js ''|------|-------|'', r] 2"
  by (simp add: tableColumnIntegrity_reported autogenerated_def numeral_3_eq_3
      reported_header_separator numeral_2_eq_2 del: state_at.simps)

section \<open>The claims\<close>

text \<open>
  C1.  A line in an active table region (the loop reaches it with \<open>inTable\<close> set and
  \<open>expectedColumnCount\<close> holding \<open>expected\<close>) that is a table row, no separator row
  and no Liquid-only row, and whose column count \<open>actual\<close> differs from \<open>expected\<close>,
  gets exactly one diagnostic, which carries the message of the specification: the one about
  more columns when \<open>actual > expected\<close>, the one about missing columns otherwise.
\<close>

theorem mismatch_reported_once:
  assumes "\<not> autogenerated (frontmatter (join (frontMatterLines ps) (js [CHR 0x0A])))"
    and "i < length (lines ps)"
    and "inTable (state_at getRange (lines ps) i)"
    and "expectedColumnCount (state_at getRange (lines ps) i) = Some expected"
    and "test TABLE_ROW_REGEX (lines ps ! i)"
    and "\<not> test TABLE_SEPARATOR_REGEX (lines ps ! i)"
    and "\<not> isLiquidOnlyRow (lines ps ! i)"
    and "countColumns (lines ps ! i) = actual"
    and "actual \<noteq> expected"
  shows "filter (\<lambda>d. lineNumber d = i + 1) (tableColumnIntegrity frontmatter getRange ps) =
           [\<lparr>lineNumber = i + 1,
             detail =
               (if actual > expected then
                  js ''Table row has '' @ decimal actual @ js '' columns but header has ''
                    @ decimal expected @ js ''. Add '' @ decimal (actual - expected)
                    @ js '' more column(s) to the header row to match this row.''
                else
                  js ''Table row has '' @ decimal actual @ js '' columns but header has ''
                    @ decimal expected @ js ''. Add '' @ decimal (expected - actual)
                    @ js '' missing column(s) to this row.''),
             context_js = lines ps ! i,
             range_js = getRange (lines ps ! i) (trim (lines ps ! i)),
             fixInfo = None\<rparr>]"
proof -
  let ?ls = "lines ps"
  have all: "tableColumnIntegrity frontmatter getRange ps =
               concat (map (reported_at getRange ?ls) [0..<length ?ls])"
    using assms(1) by (rule tableColumnIntegrity_reported)
  have here: "filter (\<lambda>d. lineNumber d = i + 1) (tableColumnIntegrity frontmatter getRange ps) =
               reported_at getRange ?ls i"
    using assms(2) filter_concat_upt [of "reported_at getRange ?ls" i "length ?ls"]
    by (simp add: all reported_at_lineNumber)
  have "reported_at getRange ?ls i =
          [\<lparr>lineNumber = i + 1, detail = errorMessage actual (Some expected),
            context_js = ?ls ! i, range_js = getRange (?ls ! i) (trim (?ls ! i)),
            fixInfo = None\<rparr>]"
    using assms(3-9) by (simp add: reported_at_def body_def Let_def)
  with here show ?thesis
    by (simp add: errorMessage_def toNumber_def toString_def)
qed

theorem mismatch_reported_once_witness:
  "inTable (state_at (\<lambda>l t. ()) [js ''| Name | Value |'', js ''|------|-------|'', js ''| a | b | c |''] 2)
   \<and> expectedColumnCount
        (state_at (\<lambda>l t. ()) [js ''| Name | Value |'', js ''|------|-------|'', js ''| a | b | c |''] 2)
       = Some 2
   \<and> test TABLE_ROW_REGEX (js ''| a | b | c |'')
   \<and> \<not> test TABLE_SEPARATOR_REGEX (js ''| a | b | c |'')
   \<and> \<not> isLiquidOnlyRow (js ''| a | b | c |'')
   \<and> countColumns (js ''| a | b | c |'') = 3
   \<and> filter (\<lambda>d. lineNumber d = 2 + 1)
        (tableColumnIntegrity (\<lambda>s. None) (\<lambda>l t. ())
          \<lparr>frontMatterLines = [],
           lines = [js ''| Name | Value |'', js ''|------|-------|'', js ''| a | b | c |'']\<rparr>) =
       [\<lparr>lineNumber = 3,
         detail = js ''Table row has 3 columns but header has 2. Add 1 more column(s) to the header row to match this row.'',
         context_js = js ''| a | b | c |'', range_js = (), fixInfo = None\<rparr>]
   \<and> filter (\<lambda>d. lineNumber d = 2 + 1)
        (tableColumnIntegrity (\<lambda>s. None) (\<lambda>l t. ())
          \<lparr>frontMatterLines = [],
           lines = [js ''| Name | Value |'', js ''|------|-------|'', js ''| a |'']\<rparr>) =
       [\<lparr>lineNumber = 3,
         detail = js ''Table row has 1 columns but header has 2. Add 1 missing column(s) to this row.'',
         context_js = js ''| a |'', range_js = (), fixInfo = None\<rparr>]"
proof -
  let ?h = "js ''| Name | Value |''" and ?s = "js ''|------|-------|''"
  let ?more = "\<lparr>frontMatterLines = [], lines = [?h, ?s, js ''| a | b | c |'']\<rparr>"
  let ?less = "\<lparr>frontMatterLines = [], lines = [?h, ?s, js ''| a |'']\<rparr>"
  let ?fm = "\<lambda>s::jsstring. None :: fmdata" and ?gr = "\<lambda>(l::jsstring) (t::jsstring). ()"
  have more: "filter (\<lambda>d. lineNumber d = 2 + 1) (tableColumnIntegrity ?fm ?gr ?more) =
      [\<lparr>lineNumber = 3,
        detail = js ''Table row has 3 columns but header has 2. Add 1 more column(s) to the header row to match this row.'',
        context_js = js ''| a | b | c |'', range_js = (), fixInfo = None\<rparr>]"
    using mismatch_reported_once [of ?fm ?more 2 ?gr 2 3]
    by (simp add: autogenerated_def state_after_header_separator row_abc)
      (simp add: js_def digit_def)
  have less: "filter (\<lambda>d. lineNumber d = 2 + 1) (tableColumnIntegrity ?fm ?gr ?less) =
      [\<lparr>lineNumber = 3,
        detail = js ''Table row has 1 columns but header has 2. Add 1 missing column(s) to this row.'',
        context_js = js ''| a |'', range_js = (), fixInfo = None\<rparr>]"
    using mismatch_reported_once [of ?fm ?less 2 ?gr 2 1]
    by (simp add: autogenerated_def state_after_header_separator row_a)
      (simp add: js_def digit_def)
  from more less show ?thesis
    by (simp add: state_after_header_separator row_abc)
qed

text \<open>
  C2.  A document made of lines that are no table rows, then a header that is a table
  row, a separator row, any number of rows with the column count of the header, and
  again lines that are no table rows, gets no diagnostic.
\<close>

theorem well_formed_table_silent:
  assumes doc: "lines ps = pre @ header # separator # rows @ post"
    and pre: "\<forall>l\<in>set pre. \<not> test TABLE_ROW_REGEX l"
    and header: "test TABLE_ROW_REGEX header"
    and separator: "test TABLE_SEPARATOR_REGEX separator"
    and rows: "\<forall>r\<in>set rows. countColumns r = countColumns header"
    and post: "\<forall>l\<in>set post. \<not> test TABLE_ROW_REGEX l"
  shows "tableColumnIntegrity frontmatter getRange ps = []"
proof -
  let ?ls = "lines ps" and ?n = "length pre" and ?c = "countColumns header"
  let ?st = "state_at getRange ?ls"
  have at_pre: "\<not> test TABLE_ROW_REGEX (?ls ! j)" if "j < ?n" for j
    using that pre by (simp add: doc nth_append)
  then have before: "?st ?n = initial" "\<forall>j<?n. reported_at getRange ?ls j = []"
    using outside_until [of ?n ?ls getRange] by simp_all
  have at_header: "?ls ! ?n = header" and at_separator: "?ls ! Suc ?n = separator"
    and len: "Suc ?n < length ?ls"
    by (simp_all add: doc nth_append)
  have opens: "test TABLE_ROW_REGEX (?ls ! ?n) \<and> confirmsTable (nextLine ?ls ?n)"
    using header separator at_header at_separator len by (simp add: confirmsTable_nextLine)
  have rep_header: "reported_at getRange ?ls ?n = []"
    unfolding reported_at_def by (rule body_outside(1)) (simp add: before initial_def)
  have st_header: "inTable (?st (Suc ?n))" "expectedColumnCount (?st (Suc ?n)) = Some ?c"
    using opens at_header by (simp_all add: before initial_def body_def)
  have rep_separator: "reported_at getRange ?ls (Suc ?n) = []"
    unfolding reported_at_def using separator at_separator by (simp add: body_separator)
  have st_separator: "inTable (?st (Suc (Suc ?n))) \<longrightarrow>
      expectedColumnCount (?st (Suc (Suc ?n))) = Some ?c"
    using st_header by (auto simp: body_def Let_def)
  have after: "test TABLE_ROW_REGEX (?ls ! j) \<longrightarrow> countColumns (?ls ! j) = ?c"
    if "Suc (Suc ?n) \<le> j" "j < length ?ls" for j
  proof -
    from that obtain m where j: "j = ?n + 2 + m" and m: "m < length (rows @ post)"
      using doc by (auto simp: le_iff_add)
    have "?ls ! j = (rows @ post) ! m"
      unfolding j doc by (simp add: nth_append)
    moreover have "(rows @ post) ! m \<in> set rows \<union> set post"
      using m by (metis nth_mem set_append)
    ultimately show ?thesis
      using rows post by auto
  qed
  have rep_after: "reported_at getRange ?ls j = []" if "Suc (Suc ?n) \<le> j" "j < length ?ls" for j
    using expected_kept [of getRange ?ls "Suc (Suc ?n)" ?c "length ?ls" j] st_separator after that
    by blast
  have "reported_at getRange ?ls j = []" if "j < length ?ls" for j
  proof -
    consider "j < ?n" | "j = ?n" | "j = Suc ?n" | "Suc (Suc ?n) \<le> j"
      by linarith
    then show ?thesis
      using before(2) rep_header rep_separator rep_after that by cases auto
  qed
  then show ?thesis
    by (simp add: nothing_reported)
qed

theorem well_formed_table_silent_witness:
  "\<not> test TABLE_ROW_REGEX (js ''abc'')
   \<and> test TABLE_ROW_REGEX (js ''| Name | Value |'')
   \<and> test TABLE_SEPARATOR_REGEX (js ''|------|-------|'')
   \<and> countColumns (js ''| a | b |'') = countColumns (js ''| Name | Value |'')
   \<and> tableColumnIntegrity (\<lambda>s. None) (\<lambda>l t. ())
        \<lparr>frontMatterLines = [],
         lines = [js ''abc'', js ''| Name | Value |'', js ''|------|-------|'',
                  js ''| a | b |'', js ''| a | b |'', js ''abc'']\<rparr> = []"
  using well_formed_table_silent
    [of "\<lparr>frontMatterLines = [],
           lines = [js ''abc'', js ''| Name | Value |'', js ''|------|-------|'',
                    js ''| a | b |'', js ''| a | b |'', js ''abc'']\<rparr>"
        "[js ''abc'']" "js ''| Name | Value |''" "js ''|------|-------|''"
        "[js ''| a | b |'', js ''| a | b |'']" "[js ''abc'']" "\<lambda>s. None" "\<lambda>l t. ()"]
  by (simp add: row_text row_header separator_dashes count_ab count_header)

text \<open>
  C3.  A table row that is not followed by a separator row (a table row that is the last
  line has no following line) does not open a table region: from a turn \<open>i\<close> that the
  loop starts outside any region, and as long as no table row is followed by a separator
  row, the loop stays outside and reports nothing, whatever the column counts of the
  lines.  With \<open>i = 0\<close> this holds from the start of the document.
\<close>

theorem no_separator_no_region:
  assumes "\<not> inTable (state_at getRange (lines ps) i)"
    and "i \<le> k"
    and "\<forall>j. i \<le> j \<and> j < k \<longrightarrow> test TABLE_ROW_REGEX (lines ps ! j) \<longrightarrow>
           \<not> (j + 1 < length (lines ps) \<and> test TABLE_SEPARATOR_REGEX (lines ps ! (j + 1)))"
  shows "\<not> inTable (state_at getRange (lines ps) k)
         \<and> filter (\<lambda>d. i < lineNumber d \<and> lineNumber d \<le> k)
             (tableColumnIntegrity frontmatter getRange ps) = []"
proof -
  let ?ls = "lines ps"
  from assms(3) have "\<forall>j. i \<le> j \<and> j < k \<longrightarrow>
      \<not> (test TABLE_ROW_REGEX (?ls ! j) \<and> confirmsTable (nextLine ?ls j))"
    by (simp add: confirmsTable_nextLine)
  with assms(1,2) have st: "state_at getRange ?ls k = state_at getRange ?ls i"
    and rep: "\<forall>j. i \<le> j \<and> j < k \<longrightarrow> reported_at getRange ?ls j = []"
    using outside_from [of getRange ?ls i k] by simp_all
  have "\<not> (i < lineNumber d \<and> lineNumber d \<le> k)"
    if "d \<in> set (tableColumnIntegrity frontmatter getRange ps)" for d
  proof
    assume range: "i < lineNumber d \<and> lineNumber d \<le> k"
    from that obtain j where j: "d \<in> set (reported_at getRange ?ls j)"
      using reported_member by blast
    then have "lineNumber d = j + 1"
      by (rule reported_at_lineNumber)
    with range have "i \<le> j \<and> j < k" by simp
    with rep j show False by simp
  qed
  then show ?thesis
    using assms(1) by (simp add: st filter_empty_conv)
qed

theorem no_separator_no_region_witness:
  "\<not> inTable (state_at (\<lambda>l t. ()) [js ''| a | b | c |'', js ''| a |''] 0)
   \<and> test TABLE_ROW_REGEX (js ''| a | b | c |'')
   \<and> \<not> test TABLE_SEPARATOR_REGEX (js ''| a |'')
   \<and> test TABLE_ROW_REGEX (js ''| a |'')
   \<and> countColumns (js ''| a | b | c |'') = 3
   \<and> countColumns (js ''| a |'') = 1
   \<and> \<not> inTable (state_at (\<lambda>l t. ()) [js ''| a | b | c |'', js ''| a |''] 2)
   \<and> filter (\<lambda>d. 0 < lineNumber d \<and> lineNumber d \<le> 2)
        (tableColumnIntegrity (\<lambda>s. None) (\<lambda>l t. ())
          \<lparr>frontMatterLines = [], lines = [js ''| a | b | c |'', js ''| a |'']\<rparr>) = []"
  using no_separator_no_region
    [of "\<lambda>l t. ()" "\<lparr>frontMatterLines = [], lines = [js ''| a | b | c |'', js ''| a |'']\<rparr>"
        0 2 "\<lambda>s. None"]
  by (simp add: row_abc row_a initial_def numeral_2_eq_2 less_Suc_eq imp_disjL all_conj_distrib
      del: state_at.simps(2))

text \<open>
  C4.  A line for which \<open>isLiquidOnlyRow\<close> holds gets no diagnostic, in whatever state
  the loop reaches it and whatever its column count; and \<open>isLiquidOnlyRow\<close> holds for the
  line \<^verbatim>\<open>{% ifversion fpt %}|{% endif %}\<close> of the specification.
\<close>

theorem liquid_only_never_reported:
  "(\<forall>i st. i < length (lines ps) \<and> isLiquidOnlyRow (lines ps ! i) \<longrightarrow>
      snd (body getRange (lines ps) i st) = []
      \<and> filter (\<lambda>d. lineNumber d = i + 1) (tableColumnIntegrity frontmatter getRange ps) = [])
   \<and> isLiquidOnlyRow (js ''{% ifversion fpt %}|{% endif %}'')"
proof -
  have "snd (body getRange (lines ps) i st) = []
        \<and> filter (\<lambda>d. lineNumber d = i + 1) (tableColumnIntegrity frontmatter getRange ps) = []"
    if "i < length (lines ps)" and "isLiquidOnlyRow (lines ps ! i)" for i st
    using that filter_line_cases [of i ps frontmatter getRange]
    by (auto simp: reported_at_def body_liquid)
  with liquid_example show ?thesis
    by blast
qed

theorem liquid_only_never_reported_witness:
  "isLiquidOnlyRow (js ''|{% else %}|'')
   \<and> test TABLE_ROW_REGEX (js ''|{% else %}|'')
   \<and> \<not> test TABLE_SEPARATOR_REGEX (js ''|{% else %}|'')
   \<and> countColumns (js ''|{% else %}|'') = 1
   \<and> inTable (state_at (\<lambda>l t. ()) [js ''| Name | Value |'', js ''|------|-------|'', js ''|{% else %}|''] 2)
   \<and> expectedColumnCount
        (state_at (\<lambda>l t. ()) [js ''| Name | Value |'', js ''|------|-------|'', js ''|{% else %}|''] 2)
       = Some 2
   \<and> filter (\<lambda>d. lineNumber d = 2 + 1)
        (tableColumnIntegrity (\<lambda>s. None) (\<lambda>l t. ())
          \<lparr>frontMatterLines = [],
           lines = [js ''| Name | Value |'', js ''|------|-------|'', js ''|{% else %}|'']\<rparr>) = []"
  using liquid_only_never_reported
    [of "\<lparr>frontMatterLines = [],
           lines = [js ''| Name | Value |'', js ''|------|-------|'', js ''|{% else %}|'']\<rparr>"
        "\<lambda>l t. ()" "\<lambda>s. None",
      THEN conjunct1, THEN spec [where x = 2], THEN spec [where x = initial]]
  by (simp add: row_else state_after_header_separator)

text \<open>
  C5.  A line that is a separator row gets no diagnostic: the turn of the loop at it
  reports nothing in any state (opening separator or later one), and the rule's output
  has no diagnostic on that line.
\<close>

theorem separator_never_reported:
  assumes "i < length (lines ps)"
    and "test TABLE_SEPARATOR_REGEX (lines ps ! i)"
  shows "snd (body getRange (lines ps) i st) = []
         \<and> filter (\<lambda>d. lineNumber d = i + 1) (tableColumnIntegrity frontmatter getRange ps) = []"
  using assms filter_line_cases [of i ps frontmatter getRange]
  by (auto simp: reported_at_def body_separator)

theorem separator_never_reported_witness:
  "test TABLE_SEPARATOR_REGEX (js ''|:-|-:|'')
   \<and> snd (body (\<lambda>l t. ()) [js ''| Name | Value |'', js ''|------|-------|'', js ''|:-|-:|''] 2
          (state_at (\<lambda>l t. ()) [js ''| Name | Value |'', js ''|------|-------|'', js ''|:-|-:|''] 2)) = []
   \<and> filter (\<lambda>d. lineNumber d = 2 + 1)
        (tableColumnIntegrity (\<lambda>s. None) (\<lambda>l t. ())
          \<lparr>frontMatterLines = [],
           lines = [js ''| Name | Value |'', js ''|------|-------|'', js ''|:-|-:|'']\<rparr>) = []"
  using separator_never_reported
    [of 2 "\<lparr>frontMatterLines = [],
             lines = [js ''| Name | Value |'', js ''|------|-------|'', js ''|:-|-:|'']\<rparr>"
        "\<lambda>l t. ()"
        "state_at (\<lambda>l t. ()) [js ''| Name | Value |'', js ''|------|-------|'', js ''|:-|-:|''] 2"
        "\<lambda>s. None"]
  by (simp add: separator_colons del: state_at.simps)

text \<open>
  C6.  When the decoded front matter has a truthy value under the key
  \<^verbatim>\<open>autogenerated\<close>, the rule reports nothing, whatever the lines are.
\<close>

theorem autogenerated_skipped:
  assumes "frontmatter (join (frontMatterLines ps) (js [CHR 0x0A])) = Some data"
    and "data (js ''autogenerated'') = Some v"
    and "truthy v"
  shows "tableColumnIntegrity frontmatter getRange ps = []"
  using assms by (simp add: tableColumnIntegrity_autogenerated autogenerated_def)

theorem autogenerated_skipped_witness:
  "truthy (JBool True)
   \<and> tableColumnIntegrity (\<lambda>s. Some [js ''autogenerated'' \<mapsto> JBool True]) (\<lambda>l t. ())
        \<lparr>frontMatterLines = [js ''autogenerated: true''],
         lines = [js ''| Name | Value |'', js ''|------|-------|'', js ''| a |'']\<rparr> = []"
  using autogenerated_skipped
    [of "\<lambda>s. Some [js ''autogenerated'' \<mapsto> JBool True]"
        "\<lparr>frontMatterLines = [js ''autogenerated: true''],
          lines = [js ''| Name | Value |'', js ''|------|-------|'', js ''| a |'']\<rparr>"
        "[js ''autogenerated'' \<mapsto> JBool True]" "JBool True" "\<lambda>l t. ()"]
  by simp

text \<open>
  C7.  \<open>countColumns\<close> follows the procedure of the specification: 0 for a row that is
  empty or has no delimiter once trimmed; otherwise the number of pieces of the split of
  the trimmed row, not counting the first piece if it is blank nor the last piece if it is
  blank.  The row \<^verbatim>\<open>| a | b |\<close> has 2 columns, and a row that neither starts nor ends
  with the delimiter once trimmed loses no piece.
\<close>

theorem countColumns_procedure:
  "countColumns row = countColumns_spec row
   \<and> (trim row = [] \<or> pipe \<notin> set (trim row) \<longrightarrow> countColumns row = 0)
   \<and> countColumns (js ''| a | b |'') = 2
   \<and> (pipe \<in> set (trim row) \<and> hd (trim row) \<noteq> pipe \<and> last (trim row) \<noteq> pipe \<longrightarrow>
        countColumns_cells (trim row) = split (trim row) pipe
        \<and> countColumns row = length (split (trim row) pipe))"
proof -
  have zero: "countColumns row = 0" if "trim row = [] \<or> pipe \<notin> set (trim row)"
    using that by (auto simp: countColumns_def includes_js_def)
  have example: "countColumns (js ''| a | b |'') = 2"
    by code_simp
  have keep: "countColumns_cells (trim row) = split (trim row) pipe
              \<and> countColumns row = length (split (trim row) pipe)"
    if "pipe \<in> set (trim row) \<and> hd (trim row) \<noteq> pipe \<and> last (trim row) \<noteq> pipe"
  proof -
    from that have "countColumns_cells (trim row) = split (trim row) pipe"
      by (simp add: countColumns_no_drop)
    moreover from that have "trim row \<noteq> []" "includes_js (trim row) pipe"
      by (auto simp: includes_js_def)
    ultimately show ?thesis
      by (simp add: countColumns_def)
  qed
  from countColumns_eq_spec zero example keep show ?thesis
    by blast
qed

theorem countColumns_procedure_witness:
  "(trim (js ''abc'') = [] \<or> pipe \<notin> set (trim (js ''abc''))) \<and> countColumns (js ''abc'') = 0
   \<and> pipe \<in> set (trim (js '' a | b ''))
   \<and> hd (trim (js '' a | b '')) \<noteq> pipe \<and> last (trim (js '' a | b '')) \<noteq> pipe
   \<and> countColumns_cells (trim (js '' a | b '')) = [js ''a '', js '' b'']
   \<and> countColumns (js '' a | b '') = 2"
  using countColumns_procedure [of "js ''abc''"] countColumns_procedure [of "js '' a | b ''"]
  by code_simp

text \<open>
  C8.  The cells that \<open>isLiquidOnlyRow\<close> keeps with its filter by index are the cells
  that \<open>countColumns\<close> keeps with its \<^verbatim>\<open>shift\<close> and \<^verbatim>\<open>pop\<close>, for every row; so
  \<open>isLiquidOnlyRow\<close> tests the cells that \<open>countColumns\<close> counts, and on a row with a
  delimiter \<open>countColumns\<close> is the number of cells that \<open>isLiquidOnlyRow\<close> tests.
\<close>

theorem cells_same_procedure:
  "isLiquidOnlyRow_filteredCells (split (trim row) pipe) = countColumns_cells (trim row)
   \<and> (isLiquidOnlyRow row \<longleftrightarrow>
        pipe \<in> set (trim row) \<and> countColumns_cells (trim row) \<noteq> []
        \<and> list_all (test LIQUID_ONLY_CELL_REGEX) (countColumns_cells (trim row)))
   \<and> (pipe \<in> set row \<longrightarrow>
        countColumns row = length (isLiquidOnlyRow_filteredCells (split (trim row) pipe)))"
proof -
  have same: "isLiquidOnlyRow_filteredCells (split (trim row) pipe) = countColumns_cells (trim row)"
    unfolding countColumns_cells_def by (rule filteredCells_eq_shift_pop)
  have liquid: "isLiquidOnlyRow row \<longleftrightarrow>
        pipe \<in> set (trim row) \<and> countColumns_cells (trim row) \<noteq> []
        \<and> list_all (test LIQUID_ONLY_CELL_REGEX) (countColumns_cells (trim row))"
    by (auto simp: isLiquidOnlyRow_def Let_def includes_js_def same)
  have count: "countColumns row = length (isLiquidOnlyRow_filteredCells (split (trim row) pipe))"
    if "pipe \<in> set row"
  proof -
    have "pipe \<in> set (trim row)"
      using that not_space_pipe by (rule trim_keeps)
    then show ?thesis
      by (auto simp: countColumns_def Let_def includes_js_def same)
  qed
  from same liquid count show ?thesis
    by blast
qed

theorem cells_same_procedure_witness:
  "pipe \<in> set (js '' | a |b'')
   \<and> countColumns_cells (trim (js '' | a |b'')) = [js '' a '', js ''b'']
   \<and> isLiquidOnlyRow_filteredCells (split (trim (js '' | a |b'')) pipe) = [js '' a '', js ''b'']
   \<and> countColumns (js '' | a |b'') = 2"
proof -
  have "pipe \<in> set (js '' | a |b'')"
    by (simp add: js_def pipe_def)
  moreover have "countColumns_cells (trim (js '' | a |b'')) = [js '' a '', js ''b'']"
    by code_simp
  ultimately show ?thesis
    using cells_same_procedure [of "js '' | a |b''"] by simp
qed




text \<open>
  C10.  The cell pattern takes the four keywords as prefixes: a cell that opens with
  \<^verbatim>\<open>{% \<close> and a keyword and closes with \<^verbatim>\<open>%}\<close> is accepted whatever stands in
  between on the same line, also letters that continue the keyword.  So rows of cells
  \<^verbatim>\<open>{% elseware %}\<close> or \<^verbatim>\<open>{% ifversioned %}\<close> satisfy \<open>isLiquidOnlyRow\<close>, and such a
  row of one column under a header of two gets no diagnostic.
\<close>

theorem keyword_prefix_exempt:
  "(\<forall>kw rest. kw \<in> {''ifversion'', ''else'', ''endif'', ''elsif''}
        \<and> list_all (\<lambda>c. \<not> isLineTerminator c) rest \<longrightarrow>
      test LIQUID_ONLY_CELL_REGEX (js ''{% '' @ js kw @ rest @ js ''%}''))
   \<and> isLiquidOnlyRow (js ''|{% elseware %}|'')
   \<and> isLiquidOnlyRow (js ''|{% ifversioned %}|{% ifversioned %}|{% ifversioned %}|'')
   \<and> test TABLE_ROW_REGEX (js ''|{% elseware %}|'')
   \<and> \<not> test TABLE_SEPARATOR_REGEX (js ''|{% elseware %}|'')
   \<and> countColumns (js ''|{% elseware %}|'') = 1
   \<and> expectedColumnCount
        (state_at getRange [js ''| Name | Value |'', js ''|------|-------|'', js ''|{% elseware %}|''] 2)
       = Some 2
   \<and> tableColumnIntegrity (\<lambda>s. None) getRange
        \<lparr>frontMatterLines = [],
         lines = [js ''| Name | Value |'', js ''|------|-------|'', js ''|{% elseware %}|'']\<rparr> = []"
proof -
  have "reported_at getRange
      [js ''| Name | Value |'', js ''|------|-------|'', js ''|{% elseware %}|''] 2 = []"
    by (simp add: reported_at_def body_liquid row_elseware)
  then show ?thesis
    using keyword_prefix_accepted
    by (simp add: table_of_three state_after_header_separator row_elseware row_ifversioned)
qed

theorem keyword_prefix_exempt_witness:
  "list_all (\<lambda>c. \<not> isLineTerminator c) (js ''ware x '')
   \<and> test LIQUID_ONLY_CELL_REGEX (js ''{% '' @ js ''else'' @ js ''ware x '' @ js ''%}'')"
proof -
  have "list_all (\<lambda>c. \<not> isLineTerminator c) (js ''ware x '')"
    by (simp add: js_def isLineTerminator_def)
  with keyword_prefix_exempt [THEN conjunct1, THEN spec [where x = "''else''"],
      THEN spec [where x = "js ''ware x ''"]]
  show ?thesis
    by simp
qed

end
